theory Spec2Isabelle
  imports Complex_Main "HOL-Library.Word" "HOL-Library.List_Lexorder" "HOL-Library.AList"
begin

text \<open>
  A shallow embedding of the parts of the chat application that its specification makes
  claims about: the fixed-window rate limiter of the cloud functions, the direct-message
  chat identity, the optimistic merge engine of the \<^verbatim>\<open>useMessages\<close> hook, the notification
  fan-out and the timestamp normalizer. The definitions come first, each translated from
  the source function of the same name; the properties follow, one section for each part.
\<close>

section \<open>Rate limiter (functions/src/rateLimiter.ts)\<close>

text \<open>
  The module keeps one process-wide \<^verbatim>\<open>Map<string, Bucket>\<close> and reads the clock with
  \<^verbatim>\<open>Date.now()\<close>. The model passes both explicitly: the clock reading is the first
  argument, the map is taken and returned. JavaScript numbers are modelled as integers
  (milliseconds and request counts); \<^verbatim>\<open>NaN\<close> and fractions are outside the model.
  The \<^verbatim>\<open>throw new HttpsError("resource-exhausted", ...)\<close> is the value
  \<open>Inl ResourceExhausted\<close>.
\<close>

record rateLimiterOptions =
  windowMs :: int
  maxRequests :: int

record bucket =
  count :: int
  expiresAt :: int

type_synonym buckets = "string \<rightharpoonup> bucket"

datatype httpsError = ResourceExhausted

definition assertRateLimit ::
  "int \<Rightarrow> string \<Rightarrow> rateLimiterOptions \<Rightarrow> buckets \<Rightarrow> (httpsError + unit) \<times> buckets" where
  "assertRateLimit now key options bs =
     (case bs key of
        None \<Rightarrow> (Inr (), bs(key \<mapsto> \<lparr>count = 1, expiresAt = now + windowMs options\<rparr>))
      | Some existing \<Rightarrow>
          if expiresAt existing \<le> now
          then (Inr (), bs(key \<mapsto> \<lparr>count = 1, expiresAt = now + windowMs options\<rparr>))
          else if count existing \<ge> maxRequests options
          then (Inl ResourceExhausted, bs)
          else (Inr (), bs(key \<mapsto> existing\<lparr>count := count existing + 1\<rparr>)))"

definition resetRateLimiter :: "buckets" where
  "resetRateLimiter = Map.empty"

text \<open>
  A run of calls for one key and one option record, at the given clock readings, in that
  order; the outcome of every call is kept.
\<close>

fun assertRateLimitAll ::
  "int list \<Rightarrow> string \<Rightarrow> rateLimiterOptions \<Rightarrow> buckets \<Rightarrow> (httpsError + unit) list \<times> buckets" where
  "assertRateLimitAll [] key options bs = ([], bs)"
| "assertRateLimitAll (now # nows) key options bs =
     (let (r, bs') = assertRateLimit now key options bs;
          (rs, bs'') = assertRateLimitAll nows key options bs'
      in (r # rs, bs''))"

text \<open>The live window of a key at a clock reading: the bucket, if it has not expired.\<close>

definition liveWindow :: "buckets \<Rightarrow> string \<Rightarrow> int \<Rightarrow> bucket option" where
  "liveWindow bs key now =
     (case bs key of
        None \<Rightarrow> None
      | Some existing \<Rightarrow> if expiresAt existing \<le> now then None else Some existing)"

section \<open>Direct-message chat identity (shared/src/index.ts)\<close>

text \<open>
  \<^verbatim>\<open>[uidA, uidB].sort().join("__")\<close>. A JavaScript string is a sequence of UTF-16 code
  units, and the default \<^verbatim>\<open>sort\<close> orders strings by comparing code units from the left,
  a proper prefix first: the lexicographic order on lists of 16-bit words. The sort is
  stable; on a total order its result is the one that \<open>sort\<close> computes.
\<close>

type_synonym utf16 = "16 word list"

fun join :: "utf16 \<Rightarrow> utf16 list \<Rightarrow> utf16" where
  "join sep [] = []"
| "join sep [x] = x"
| "join sep (x # y # ys) = x @ sep @ join sep (y # ys)"

definition underscores :: utf16 where
  "underscores = [0x5F, 0x5F]"

definition dmChatId :: "utf16 \<Rightarrow> utf16 \<Rightarrow> utf16" where
  "dmChatId uidA uidB = join underscores (sort [uidA, uidB])"

section \<open>Optimistic merge engine (the \<^verbatim>\<open>useMessages\<close> hook)\<close>

subsection \<open>Messages\<close>

text \<open>
  \<^verbatim>\<open>createdAt\<close> is \<^verbatim>\<open>z.any()\<close> in the schema. The values it takes are a database
  \<^verbatim>\<open>Timestamp\<close> (seconds and nanoseconds), a native \<^verbatim>\<open>Date\<close> (milliseconds since the
  epoch; what an optimistic message carries), or \<^verbatim>\<open>null\<close> (a server timestamp that is
  still pending). Values for which the comparator yields \<^verbatim>\<open>NaN\<close> (an invalid date,
  \<^verbatim>\<open>undefined\<close>) are outside the model.
\<close>

datatype createdAt = Timestamp int int | Date int | Null

datatype messageType = TextMessage | ImageMessage | VideoMessage | FileMessage | SystemMessage

datatype moderationStatus = Pending | Approved | Rejected

record attachment =
  attachmentId :: string
  storagePath :: string
  downloadURL :: string
  contentType :: string
  size :: int
  name :: string
  width :: "int option"
  height :: "int option"
  duration :: "int option"

record moderation =
  status :: moderationStatus
  reason :: "string option"

text \<open>An optional property of the schema is an \<open>option\<close>: \<open>None\<close> is an absent property.\<close>

record messageRecord =
  messageId :: string
  chatId :: string
  senderId :: string
  msgText :: "string option"
  attachments :: "attachment list option"
  msgType :: messageType
  createdAt :: createdAt
  editedAt :: "createdAt option"
  deletedAt :: "createdAt option"
  reactions :: "(string \<times> string list) list option"
  readBy :: "string list option"
  moderation :: "moderation option"

text \<open>\<^verbatim>\<open>Partial<MessageRecord>\<close>: every property may be absent.\<close>

record messagePatch =
  patchMessageId :: "string option"
  patchChatId :: "string option"
  patchSenderId :: "string option"
  patchText :: "string option"
  patchAttachments :: "attachment list option"
  patchType :: "messageType option"
  patchCreatedAt :: "createdAt option"
  patchEditedAt :: "createdAt option"
  patchDeletedAt :: "createdAt option"
  patchReactions :: "(string \<times> string list) list option"
  patchReadBy :: "string list option"
  patchModeration :: "moderation option"

record queryDocumentSnapshot =
  docId :: string
  docData :: messageRecord

definition toMessageRecord :: "queryDocumentSnapshot \<Rightarrow> messageRecord" where
  "toMessageRecord snapshot = (docData snapshot)\<lparr>messageId := docId snapshot\<rparr>"

text \<open>
  The sort key of \<^verbatim>\<open>normalizeMessages\<close>: \<^verbatim>\<open>createdAt.toMillis()\<close> for a timestamp
  (\<^verbatim>\<open>seconds * 1000 + nanoseconds / 1e6\<close>, a fraction in general), otherwise
  \<^verbatim>\<open>new Date(createdAt).getTime()\<close>, which is \<open>0\<close> for \<^verbatim>\<open>null\<close>. The key is an exact
  rational; the rounding of doubles is not modelled.
\<close>

fun toMillis :: "createdAt \<Rightarrow> rat" where
  "toMillis (Timestamp seconds nanoseconds) = of_int seconds * 1000 + of_int nanoseconds / 1000000"
| "toMillis (Date ms) = of_int ms"
| "toMillis Null = 0"

definition createdMillis :: "messageRecord \<Rightarrow> rat" where
  "createdMillis m = toMillis (createdAt m)"

text \<open>
  \<^verbatim>\<open>[...messages].sort((a, b) => aDate - bDate)\<close>. \<^verbatim>\<open>Array.prototype.sort\<close> is stable, and
  the comparator is the difference of the keys, so the result is the stable sort by key:
  insertion sort from the right, which puts an element before the first one whose key is
  not smaller.
\<close>

definition normalizeMessages :: "messageRecord list \<Rightarrow> messageRecord list" where
  "normalizeMessages messages = sort_key createdMillis messages"

subsection \<open>Keyed collections\<close>

text \<open>
  Both the \<^verbatim>\<open>Map<string, MessageRecord>\<close> used for deduplication and the plain object
  behind \<^verbatim>\<open>optimisticRef.current\<close> keep their keys in insertion order: setting a key
  that is present replaces its value in place, setting a new key appends it. That is
  \<open>AList.update\<close> on an association list; \<^verbatim>\<open>delete\<close> is \<open>AList.delete\<close>, and
  \<^verbatim>\<open>values()\<close> / \<^verbatim>\<open>Object.values\<close> is \<open>map snd\<close>. (A plain object orders keys that are
  canonical array indices first; message ids are not such keys. Properties inherited
  from \<^verbatim>\<open>Object.prototype\<close> are not modelled.)
\<close>

definition dedupeById :: "messageRecord list \<Rightarrow> messageRecord list" where
  "dedupeById messages =
     map snd (foldl (\<lambda>deduped message. AList.update (messageId message) message deduped) [] messages)"

definition startsWith :: "string \<Rightarrow> string \<Rightarrow> bool" where
  "startsWith s p = (take (length p) s = p)"

definition isOptimistic :: "string \<Rightarrow> bool" where
  "isOptimistic mid = startsWith mid ''optimistic-''"

fun findIndex :: "('a \<Rightarrow> bool) \<Rightarrow> 'a list \<Rightarrow> nat option" where
  "findIndex P [] = None"
| "findIndex P (x # xs) = (if P x then Some 0 else map_option Suc (findIndex P xs))"

text \<open>\<^verbatim>\<open>Array.from(new Set([...a, ...b]))\<close>: the first occurrence of every element, in order.\<close>

definition uniqueInOrder :: "'a list \<Rightarrow> 'a list" where
  "uniqueInOrder xs = foldl (\<lambda>seen x. if x \<in> set seen then seen else seen @ [x]) [] xs"

text \<open>
  \<^verbatim>\<open>{ ...existing, ...next, readBy: Array.from(new Set([...])) }\<close>: a property present in
  \<open>next\<close> overrides the one of \<open>existing\<close>; \<open>readBy\<close> is the union. A property that is
  present with the value \<^verbatim>\<open>undefined\<close> is not told apart from an absent one.
\<close>

definition orElse :: "'a option \<Rightarrow> 'a option \<Rightarrow> 'a option" where
  "orElse a b = (case a of None \<Rightarrow> b | Some v \<Rightarrow> Some v)"

definition mergeWithReadBy :: "messageRecord \<Rightarrow> messageRecord \<Rightarrow> messageRecord" where
  "mergeWithReadBy existing next =
     \<lparr>messageId = messageId next,
      chatId = chatId next,
      senderId = senderId next,
      msgText = orElse (msgText next) (msgText existing),
      attachments = orElse (attachments next) (attachments existing),
      msgType = msgType next,
      createdAt = createdAt next,
      editedAt = orElse (editedAt next) (editedAt existing),
      deletedAt = orElse (deletedAt next) (deletedAt existing),
      reactions = orElse (reactions next) (reactions existing),
      readBy = Some (uniqueInOrder
        ((case readBy existing of None \<Rightarrow> [] | Some r \<Rightarrow> r) @
         (case readBy next of None \<Rightarrow> [] | Some r \<Rightarrow> r))),
      moderation = orElse (moderation next) (moderation existing)\<rparr>"

text \<open>\<^verbatim>\<open>{ ...existing, ...patch }\<close>.\<close>

definition applyPatch :: "messageRecord \<Rightarrow> messagePatch \<Rightarrow> messageRecord" where
  "applyPatch existing patch =
     \<lparr>messageId = (case patchMessageId patch of None \<Rightarrow> messageId existing | Some v \<Rightarrow> v),
      chatId = (case patchChatId patch of None \<Rightarrow> chatId existing | Some v \<Rightarrow> v),
      senderId = (case patchSenderId patch of None \<Rightarrow> senderId existing | Some v \<Rightarrow> v),
      msgText = orElse (patchText patch) (msgText existing),
      attachments = orElse (patchAttachments patch) (attachments existing),
      msgType = (case patchType patch of None \<Rightarrow> msgType existing | Some v \<Rightarrow> v),
      createdAt = (case patchCreatedAt patch of None \<Rightarrow> createdAt existing | Some v \<Rightarrow> v),
      editedAt = orElse (patchEditedAt patch) (editedAt existing),
      deletedAt = orElse (patchDeletedAt patch) (deletedAt existing),
      reactions = orElse (patchReactions patch) (reactions existing),
      readBy = orElse (patchReadBy patch) (readBy existing),
      moderation = orElse (patchModeration patch) (moderation existing)\<rparr>"

subsection \<open>The hook's state and operations\<close>

text \<open>
  The React state (\<^verbatim>\<open>messages\<close>, \<^verbatim>\<open>loading\<close>, \<^verbatim>\<open>loadingMore\<close>, \<^verbatim>\<open>hasMore\<close>) and the three
  refs are one record. Every operation is applied atomically: the state updater passed
  to \<^verbatim>\<open>setMessages\<close> runs against the state and the refs as they are when the operation
  is called.
\<close>

record messagesState =
  messages :: "messageRecord list"
  loading :: bool
  loadingMore :: bool
  hasMore :: bool
  oldestSnapshotRef :: "queryDocumentSnapshot option"
  latestSnapshotRef :: "queryDocumentSnapshot option"
  optimisticRef :: "(string \<times> messageRecord) list"

text \<open>The state updater of a non-empty emission (lines 105 to 117).\<close>

definition mergeSnapshot ::
  "queryDocumentSnapshot list \<Rightarrow> (string \<times> messageRecord) list \<Rightarrow> messageRecord list \<Rightarrow> messageRecord list" where
  "mergeSnapshot docs optimistic prev =
     (let nonOptimistic = filter (\<lambda>message. \<not> startsWith (messageId message) ''optimistic-'') prev;
          liveMessages = map toMessageRecord docs;
          merged = normalizeMessages (liveMessages @ map snd optimistic)
      in normalizeMessages (dedupeById (nonOptimistic @ merged)))"

text \<open>The \<^verbatim>\<open>onSnapshot\<close> success callback, for a subscription with the given page size.\<close>

definition onSnapshot :: "int \<Rightarrow> queryDocumentSnapshot list \<Rightarrow> messagesState \<Rightarrow> messagesState" where
  "onSnapshot pageSize docs st =
     (if docs = []
      then st\<lparr>oldestSnapshotRef := None, latestSnapshotRef := None,
              messages := map snd (optimisticRef st), loading := False, hasMore := False\<rparr>
      else st\<lparr>oldestSnapshotRef := Some (last docs), latestSnapshotRef := Some (hd docs),
              messages := mergeSnapshot docs (optimisticRef st) (messages st),
              loading := False, hasMore := (int (length docs) = pageSize)\<rparr>)"

text \<open>
  \<^verbatim>\<open>loadMore\<close>, run to completion. \<open>fetched\<close> is what \<^verbatim>\<open>getDocs\<close> gives: \<open>None\<close> when it
  rejects (the \<^verbatim>\<open>catch\<close> logs and the \<^verbatim>\<open>finally\<close> still runs), otherwise the page.
\<close>

definition loadMoreMerge :: "queryDocumentSnapshot list \<Rightarrow> messageRecord list \<Rightarrow> messageRecord list" where
  "loadMoreMerge docs prev =
     (let older = map toMessageRecord docs;
          merged = normalizeMessages (prev @ older)
      in dedupeById merged)"

definition loadMore ::
  "string \<Rightarrow> int \<Rightarrow> queryDocumentSnapshot list option \<Rightarrow> messagesState \<Rightarrow> messagesState" where
  "loadMore chat pageSize fetched st =
     (if chat = [] \<or> loadingMore st \<or> \<not> hasMore st \<or> oldestSnapshotRef st = None then st
      else case fetched of
        None \<Rightarrow> st\<lparr>loadingMore := False\<rparr>
      | Some docs \<Rightarrow>
          if length docs = 0 then st\<lparr>hasMore := False, loadingMore := False\<rparr>
          else st\<lparr>oldestSnapshotRef := Some (last docs),
                  messages := loadMoreMerge docs (messages st),
                  hasMore := (if int (length docs) < pageSize then False else hasMore st),
                  loadingMore := False\<rparr>)"

definition prependOptimistic :: "messageRecord \<Rightarrow> messagesState \<Rightarrow> messagesState" where
  "prependOptimistic message st =
     st\<lparr>optimisticRef := AList.update (messageId message) message (optimisticRef st),
        messages := normalizeMessages (messages st @ [message])\<rparr>"

text \<open>The state updater of \<^verbatim>\<open>settleOptimistic\<close> (lines 180 to 202).\<close>

definition settleMessages ::
  "string \<Rightarrow> messageRecord option \<Rightarrow> bool \<Rightarrow> messageRecord list \<Rightarrow> messageRecord list" where
  "settleMessages optimisticId next mergeReadBy prev =
     (let withoutOptimistic = filter (\<lambda>message. messageId message \<noteq> optimisticId) prev
      in case next of
        None \<Rightarrow> withoutOptimistic
      | Some nxt \<Rightarrow>
          let merged = filter (\<lambda>message. \<not> (messageId message = messageId nxt \<and>
                                 startsWith (messageId message) ''optimistic-'')) withoutOptimistic
          in case findIndex (\<lambda>message. messageId message = messageId nxt) merged of
               Some existingIndex \<Rightarrow>
                 if mergeReadBy
                 then normalizeMessages
                        (merged[existingIndex := mergeWithReadBy (merged ! existingIndex) nxt])
                 else normalizeMessages (merged @ [nxt])
             | None \<Rightarrow> normalizeMessages (merged @ [nxt]))"

text \<open>\<open>mergeReadBy\<close> is \<^verbatim>\<open>options?.mergeReadBy\<close>: false when the options are left out.\<close>

definition settleOptimistic ::
  "string \<Rightarrow> messageRecord option \<Rightarrow> bool \<Rightarrow> messagesState \<Rightarrow> messagesState" where
  "settleOptimistic optimisticId next mergeReadBy st =
     st\<lparr>optimisticRef := AList.delete optimisticId (optimisticRef st),
        messages := settleMessages optimisticId next mergeReadBy (messages st)\<rparr>"

definition updateOptimistic :: "string \<Rightarrow> messagePatch \<Rightarrow> messagesState \<Rightarrow> messagesState" where
  "updateOptimistic optimisticId patch st =
     (case map_of (optimisticRef st) optimisticId of
        None \<Rightarrow> st
      | Some existing \<Rightarrow>
          let patched = applyPatch existing patch
          in st\<lparr>optimisticRef := AList.update optimisticId patched (optimisticRef st),
                messages := map (\<lambda>message. if messageId message = optimisticId then patched else message)
                              (messages st)\<rparr>)"

text \<open>The visible sequence is in ascending order of creation instant.\<close>

definition visibleSorted :: "messageRecord list \<Rightarrow> bool" where
  "visibleSorted ms = sorted (map createdMillis ms)"

text \<open>
  The deduplication step for an arbitrary key function, with the table it builds made
  explicit; \<open>dedupeById\<close> is the instance at \<open>messageId\<close>.
\<close>

definition keyedTable :: "('a \<Rightarrow> 'k) \<Rightarrow> 'a list \<Rightarrow> ('k \<times> 'a) list" where
  "keyedTable kf ms = foldl (\<lambda>deduped message. AList.update (kf message) message deduped) [] ms"

definition dedupeBy :: "('a \<Rightarrow> 'k) \<Rightarrow> 'a list \<Rightarrow> 'a list" where
  "dedupeBy kf ms = map snd (keyedTable kf ms)"

text \<open>The state of a freshly mounted hook (the \<^verbatim>\<open>useState\<close> and \<^verbatim>\<open>useRef\<close> initial values).\<close>

definition initialState :: messagesState where
  "initialState =
     \<lparr>messages = [], loading = True, loadingMore = False, hasMore = True,
      oldestSnapshotRef = None, latestSnapshotRef = None, optimisticRef = []\<rparr>"

text \<open>
  A text message without attachments, with the properties that \<^verbatim>\<open>createOptimisticMessage\<close>
  sets (chat-room.tsx); used for concrete inputs.
\<close>

definition textMessage :: "string \<Rightarrow> string \<Rightarrow> string \<Rightarrow> createdAt \<Rightarrow> messageRecord" where
  "textMessage mid sender body created =
     \<lparr>messageId = mid, chatId = ''chat-1'', senderId = sender, msgText = Some body,
      attachments = None, msgType = TextMessage, createdAt = created, editedAt = None,
      deletedAt = None, reactions = Some [], readBy = Some [sender], moderation = None\<rparr>"

definition emptyPatch :: messagePatch where
  "emptyPatch =
     \<lparr>patchMessageId = None, patchChatId = None, patchSenderId = None, patchText = None,
      patchAttachments = None, patchType = None, patchCreatedAt = None, patchEditedAt = None,
      patchDeletedAt = None, patchReactions = None, patchReadBy = None, patchModeration = None\<rparr>"

text \<open>Concrete messages and a concrete state, for the examples below.\<close>

definition pendingHello :: messageRecord where
  "pendingHello = textMessage ''optimistic-a1'' ''alice'' ''Hello there'' (Date 1000)"

definition persistedHi :: messageRecord where
  "persistedHi = textMessage ''m1'' ''bob'' ''Hi'' (Date 500)"

definition hiDoc :: queryDocumentSnapshot where
  "hiDoc = \<lparr>docId = ''m1'', docData = persistedHi\<rparr>"

definition liveDoc :: queryDocumentSnapshot where
  "liveDoc = \<lparr>docId = ''m2'', docData = textMessage ''m2'' ''bob'' ''Welcome'' (Timestamp 2 0)\<rparr>"

definition olderDoc :: queryDocumentSnapshot where
  "olderDoc = \<lparr>docId = ''m0'', docData = textMessage ''m0'' ''bob'' ''First'' (Date 100)\<rparr>"

text \<open>
  The state after the subscription (page size 1) delivered \<open>hiDoc\<close> and \<open>pendingHello\<close> was
  then added with \<open>prependOptimistic\<close>.
\<close>

definition exampleState :: messagesState where
  "exampleState =
     \<lparr>messages = [persistedHi, pendingHello], loading = False, loadingMore = False,
      hasMore = True, oldestSnapshotRef = Some hiDoc, latestSnapshotRef = Some hiDoc,
      optimisticRef = [(''optimistic-a1'', pendingHello)]\<rparr>"

text \<open>Two pending messages, the later one added first.\<close>

definition pendingLater :: messageRecord where
  "pendingLater = textMessage ''optimistic-b2'' ''alice'' ''And another'' (Date 2000)"

definition twoPending :: messagesState where
  "twoPending = prependOptimistic pendingHello (prependOptimistic pendingLater initialState)"


text \<open>The persisted form of \<open>pendingHello\<close>, as the database returns it.\<close>

definition sentDoc :: queryDocumentSnapshot where
  "sentDoc = \<lparr>docId = ''m3'', docData = textMessage ''m3'' ''alice'' ''Hello there'' (Timestamp 1 5000000)\<rparr>"

section \<open>Notification fan-out (\<^verbatim>\<open>sendMessageNotification\<close>)\<close>

text \<open>
  The function reads the chat document and the target users' documents, sends one
  multicast through the messaging service and writes log lines. The model takes the two
  collections as lookups (\<open>None\<close>: the document does not exist) and the messaging service
  as a function from the multicast message to the per-token responses, and returns the
  effects in order. All reads and the send are taken to resolve; a rejected promise is not
  modelled. The fields of \<^verbatim>\<open>MessageData\<close> are prefixed with \<open>data\<close>, those of the chat
  document with \<open>chat\<close> where the plain name is taken.
\<close>

record chatData =
  participants :: "string list option"
  chatName :: "string option"
  chatType :: "string option"
  mutedBy :: "string list option"

record userData =
  fcmTokens :: "string list option"

record attachmentData =
  dataDownloadURL :: "string option"
  dataName :: "string option"

record messageData =
  dataSenderId :: string
  dataText :: "string option"
  dataType :: "string option"
  dataAttachments :: "attachmentData list option"

record multicastMessage =
  tokens :: "string list"
  notificationTitle :: string
  notificationBody :: string
  payloadChatId :: string
  payloadMessageId :: string
  payloadType :: string

record sendResponse =
  success :: bool
  errorMessage :: "string option"

datatype effect =
    SendEachForMulticast multicastMessage
  | LoggerInfo string
  | LoggerWarn string "string option list"

text \<open>\<^verbatim>\<open>value ?? []\<close>.\<close>

definition orEmpty :: "'a list option \<Rightarrow> 'a list" where
  "orEmpty v = (case v of None \<Rightarrow> [] | Some xs \<Rightarrow> xs)"

text \<open>The decimal digits of a number, as a template literal prints it.\<close>

fun decimal :: "nat \<Rightarrow> string" where
  "decimal n =
     (if n < 10 then [char_of (48 + n)] else decimal (n div 10) @ [char_of (48 + n mod 10)])"

declare decimal.simps [simp del]

definition notificationTargets :: "chatData \<Rightarrow> messageData \<Rightarrow> string list" where
  "notificationTargets chat message =
     filter (\<lambda>memberId. memberId \<noteq> dataSenderId message \<and> memberId \<notin> set (orEmpty (mutedBy chat)))
       (orEmpty (participants chat))"

text \<open>
  The tokens of one fetched user document (\<^verbatim>\<open>data?.fcmTokens?.forEach\<close>), and the
  \<^verbatim>\<open>Set\<close> filled from the documents of all targets, in insertion order.
\<close>

definition tokensOf :: "userData option \<Rightarrow> string list" where
  "tokensOf docSnap = (case docSnap of None \<Rightarrow> [] | Some data \<Rightarrow> orEmpty (fcmTokens data))"

definition collectTokens :: "(string \<Rightarrow> userData option) \<Rightarrow> string list \<Rightarrow> string list" where
  "collectTokens users targets = uniqueInOrder (concat (map (\<lambda>memberId. tokensOf (users memberId)) targets))"

definition notificationTitleOf :: "chatData \<Rightarrow> string" where
  "notificationTitleOf chat =
     (if chatType chat = Some ''group''
      then (case chatName chat of None \<Rightarrow> ''New group message'' | Some n \<Rightarrow> n)
      else ''New message'')"

definition notificationBodyOf :: "messageData \<Rightarrow> string" where
  "notificationBodyOf message =
     (case dataText message of
        Some t \<Rightarrow> t
      | None \<Rightarrow>
          (let n = length (orEmpty (dataAttachments message))
           in if n \<noteq> 0 then decimal n @ '' attachment'' @ (if n = 1 then '''' else ''s'')
              else ''New activity in your chat.''))"

definition sendMessageNotification ::
  "(string \<Rightarrow> chatData option) \<Rightarrow> (string \<Rightarrow> userData option) \<Rightarrow>
   (multicastMessage \<Rightarrow> sendResponse list) \<Rightarrow> string \<Rightarrow> string \<Rightarrow> messageData \<Rightarrow> effect list" where
  "sendMessageNotification chats users send chat mid message =
     (case chats chat of
        None \<Rightarrow> []
      | Some chatDoc \<Rightarrow>
          let targets = notificationTargets chatDoc message
          in if length targets = 0 then []
             else
               let tokenSet = collectTokens users targets
               in if length tokenSet = 0 then [LoggerInfo ''No push tokens to notify'']
                  else
                    let payload =
                          \<lparr>tokens = tokenSet,
                           notificationTitle = notificationTitleOf chatDoc,
                           notificationBody = notificationBodyOf message,
                           payloadChatId = chat,
                           payloadMessageId = mid,
                           payloadType = (case dataType message of None \<Rightarrow> ''text'' | Some t \<Rightarrow> t)\<rparr>;
                        failures = filter (\<lambda>result. \<not> success result) (send payload)
                    in if length failures \<noteq> 0
                       then [SendEachForMulticast payload,
                             LoggerWarn ''Some notifications failed'' (map errorMessage failures)]
                       else [SendEachForMulticast payload,
                             LoggerInfo ''Delivered FCM notifications''])"

fun isSend :: "effect \<Rightarrow> bool" where
  "isSend (SendEachForMulticast p) = True"
| "isSend _ = False"

text \<open>
  A group chat of four in which carol muted the chat; alice sends. Bob and dave share one
  device token, and the messaging service reports that token as failed.
\<close>

definition exampleChat :: chatData where
  "exampleChat =
     \<lparr>participants = Some [''alice'', ''bob'', ''carol'', ''dave''], chatName = Some ''Team'',
      chatType = Some ''group'', mutedBy = Some [''carol'']\<rparr>"

definition exampleChats :: "string \<Rightarrow> chatData option" where
  "exampleChats c = (if c = ''chat-1'' then Some exampleChat else None)"

definition exampleUsers :: "string \<Rightarrow> userData option" where
  "exampleUsers u =
     (if u = ''alice'' then Some \<lparr>fcmTokens = Some [''t0'']\<rparr>
      else if u = ''bob'' then Some \<lparr>fcmTokens = Some [''t1'', ''t2'']\<rparr>
      else if u = ''dave'' then Some \<lparr>fcmTokens = Some [''t2'', ''t3'']\<rparr>
      else None)"

definition exampleSend :: "multicastMessage \<Rightarrow> sendResponse list" where
  "exampleSend payload =
     map (\<lambda>t. if t = ''t2'' then \<lparr>success = False, errorMessage = Some ''unregistered''\<rparr>
               else \<lparr>success = True, errorMessage = None\<rparr>) (tokens payload)"

definition exampleMessage :: messageData where
  "exampleMessage =
     \<lparr>dataSenderId = ''alice'', dataText = Some ''Hello there'', dataType = Some ''text'',
      dataAttachments = None\<rparr>"

definition examplePayload :: multicastMessage where
  "examplePayload =
     \<lparr>tokens = [''t1'', ''t2'', ''t3''], notificationTitle = ''Team'',
      notificationBody = ''Hello there'', payloadChatId = ''chat-1'', payloadMessageId = ''m3'',
      payloadType = ''text''\<rparr>"

section \<open>Timestamp normalizer (\<^verbatim>\<open>toDate\<close>)\<close>

text \<open>
  \<^verbatim>\<open>toDate\<close> takes a value of type \<^verbatim>\<open>unknown\<close>. The model has one constructor for every
  kind of value that the function tells apart: the primitives, a native \<^verbatim>\<open>Date\<close>, a
  database \<^verbatim>\<open>Timestamp\<close> (seconds and nanoseconds), a function, and any other object,
  given by its properties. A number is a rational, \<^verbatim>\<open>NaN\<close> or an infinity; the rounding
  of doubles is not modelled. Property reads have no side effects (no getters or proxies).
\<close>

datatype dateObject = ValidDate int | InvalidDate

datatype jsValue =
    JsUndefined
  | JsNull
  | JsBoolean bool
  | JsNumber rat
  | JsNaN
  | JsInfinity
  | JsNegInfinity
  | JsBigInt int
  | JsSymbol
  | JsString string
  | JsFunction
  | JsDateObject dateObject
  | JsTimestamp int int
  | JsObject "(string \<times> jsValue) list"



















section \<open>Properties of the rate limiter\<close>

lemma assertRateLimit_fresh:
  "liveWindow bs key now = None \<Longrightarrow>
   assertRateLimit now key options bs =
     (Inr (), bs(key \<mapsto> \<lparr>count = 1, expiresAt = now + windowMs options\<rparr>))"
  by (auto simp: assertRateLimit_def liveWindow_def split: option.splits if_splits)

lemma assertRateLimit_live:
  "liveWindow bs key now = Some existing \<Longrightarrow>
   assertRateLimit now key options bs =
     (if maxRequests options \<le> count existing then (Inl ResourceExhausted, bs)
      else (Inr (), bs(key \<mapsto> existing\<lparr>count := count existing + 1\<rparr>)))"
  by (auto simp: assertRateLimit_def liveWindow_def split: option.splits if_splits)

lemma liveWindow_upd:
  "liveWindow (bs(key \<mapsto> b)) key now = (if expiresAt b \<le> now then None else Some b)"
  by (simp add: liveWindow_def)

lemma fst_assertRateLimitAll_Cons:
  "fst (assertRateLimitAll (t # ts) key options bs) =
     fst (assertRateLimit t key options bs) #
     fst (assertRateLimitAll ts key options (snd (assertRateLimit t key options bs)))"
  by (simp add: split_beta)

text \<open>
  Inside a live window whose counter is \<open>c\<close>, the \<open>i\<close>-th further call (from 0) is
  accepted exactly when \<open>c + i\<close> is still below the limit.
\<close>

lemma assertRateLimitAll_live:
  "liveWindow bs key t0 = Some b \<Longrightarrow> \<forall>t \<in> set ts. t < expiresAt b \<Longrightarrow>
   fst (assertRateLimitAll ts key options bs) =
     map (\<lambda>i. if count b + int i < maxRequests options then Inr () else Inl ResourceExhausted)
       [0..<length ts]"
proof (induction ts arbitrary: bs b t0)
  case Nil
  then show ?case by simp
next
  case (Cons t ts)
  from Cons.prems have live: "liveWindow bs key t = Some b"
    by (auto simp: liveWindow_def split: option.splits if_splits)
  have shift: "map f [0..<Suc n] = f 0 # map (\<lambda>i. f (Suc i)) [0..<n]" for f :: "nat \<Rightarrow> httpsError + unit" and n
    by (simp add: map_upt_Suc del: upt_Suc)
  show ?case
  proof (cases "maxRequests options \<le> count b")
    case True
    then have step: "assertRateLimit t key options bs = (Inl ResourceExhausted, bs)"
      using assertRateLimit_live [OF live] by simp
    have "fst (assertRateLimitAll ts key options bs) =
        map (\<lambda>i. if count b + int i < maxRequests options then Inr () else Inl ResourceExhausted)
          [0..<length ts]"
      by (rule Cons.IH [OF live]) (use Cons.prems(2) in simp)
    with True step show ?thesis
      by (simp add: shift fst_assertRateLimitAll_Cons del: upt_Suc assertRateLimitAll.simps)
  next
    case False
    let ?b = "b\<lparr>count := count b + 1\<rparr>"
    let ?bs = "bs(key \<mapsto> ?b)"
    from False have step: "assertRateLimit t key options bs = (Inr (), ?bs)"
      using assertRateLimit_live [OF live] by simp
    have live': "liveWindow ?bs key t = Some ?b"
      using Cons.prems(2) by (simp add: liveWindow_upd)
    have "fst (assertRateLimitAll ts key options ?bs) =
        map (\<lambda>i. if count ?b + int i < maxRequests options then Inr () else Inl ResourceExhausted)
          [0..<length ts]"
      by (rule Cons.IH [OF live']) (use Cons.prems(2) in simp)
    with False step show ?thesis
      by (simp add: shift fst_assertRateLimitAll_Cons add.assoc del: upt_Suc assertRateLimitAll.simps)
  qed
qed

text \<open>
  Claim C4, as amended. A call fails with resource-exhausted if and only if the key has
  a live (unexpired) window whose counter has reached \<open>maxRequests\<close>; otherwise it returns
  normally, starting a fresh window with count 1 when no live window exists and
  incrementing the live counter otherwise. The call that opens a window is never checked
  against the limit, so within one fixed window exactly \<open>max 1 maxRequests\<close> calls succeed
  (the first \<open>max 1 maxRequests\<close> of them) and every later call in that window fails.
\<close>

theorem assertRateLimit_window:
  "(fst (assertRateLimit now key options bs) = Inl ResourceExhausted \<longleftrightarrow>
      (\<exists>b. liveWindow bs key now = Some b \<and> maxRequests options \<le> count b))
   \<and> (liveWindow bs key now = None \<longrightarrow>
        assertRateLimit now key options bs =
          (Inr (), bs(key \<mapsto> \<lparr>count = 1, expiresAt = now + windowMs options\<rparr>)))
   \<and> (\<forall>b. liveWindow bs key now = Some b \<and> count b < maxRequests options \<longrightarrow>
        assertRateLimit now key options bs =
          (Inr (), bs(key \<mapsto> b\<lparr>count := count b + 1\<rparr>)))
   \<and> (liveWindow bs key now = None \<and> (\<forall>t \<in> set ts. t < now + windowMs options) \<longrightarrow>
        fst (assertRateLimitAll (now # ts) key options bs) =
          map (\<lambda>i. if int i < max 1 (maxRequests options) then Inr () else Inl ResourceExhausted)
            [0..<Suc (length ts)])"
proof (intro conjI impI allI)
  show "fst (assertRateLimit now key options bs) = Inl ResourceExhausted \<longleftrightarrow>
      (\<exists>b. liveWindow bs key now = Some b \<and> maxRequests options \<le> count b)"
    by (auto simp: assertRateLimit_def liveWindow_def split: option.splits if_splits)
next
  assume "liveWindow bs key now = None"
  then show "assertRateLimit now key options bs =
      (Inr (), bs(key \<mapsto> \<lparr>count = 1, expiresAt = now + windowMs options\<rparr>))"
    by (rule assertRateLimit_fresh)
next
  fix b
  assume "liveWindow bs key now = Some b \<and> count b < maxRequests options"
  then show "assertRateLimit now key options bs = (Inr (), bs(key \<mapsto> b\<lparr>count := count b + 1\<rparr>))"
    using assertRateLimit_live [of bs key now b options] by simp
next
  assume a: "liveWindow bs key now = None \<and> (\<forall>t \<in> set ts. t < now + windowMs options)"
  let ?b = "\<lparr>count = 1, expiresAt = now + windowMs options\<rparr>"
  let ?bs = "bs(key \<mapsto> ?b)"
  from a have step: "assertRateLimit now key options bs = (Inr (), ?bs)"
    by (simp add: assertRateLimit_fresh)
  have shift: "map f [0..<Suc n] = f 0 # map (\<lambda>i. f (Suc i)) [0..<n]" for f :: "nat \<Rightarrow> httpsError + unit" and n
    by (simp add: map_upt_Suc del: upt_Suc)
  show "fst (assertRateLimitAll (now # ts) key options bs) =
      map (\<lambda>i. if int i < max 1 (maxRequests options) then Inr () else Inl ResourceExhausted)
        [0..<Suc (length ts)]"
  proof (cases ts)
    case Nil
    with step show ?thesis by simp
  next
    case (Cons t ts')
    with a have "t < now + windowMs options" by auto
    then have live: "liveWindow ?bs key t = Some ?b"
      by (simp add: liveWindow_upd)
    have "fst (assertRateLimitAll ts key options ?bs) =
        map (\<lambda>i. if count ?b + int i < maxRequests options then Inr () else Inl ResourceExhausted)
          [0..<length ts]"
      by (rule assertRateLimitAll_live [OF live]) (use a in simp)
    with step show ?thesis
      by (simp add: shift fst_assertRateLimitAll_Cons max_def del: upt_Suc assertRateLimitAll.simps)
  qed
qed

theorem assertRateLimit_window_witness:
  "liveWindow Map.empty ''aiSummarize:u1'' 0 = None
   \<and> list_all (\<lambda>t. t < 0 + windowMs \<lparr>windowMs = 60000, maxRequests = 3\<rparr>) [10, 20, 30, 59999]
   \<and> fst (assertRateLimitAll (0 # [10, 20, 30, 59999]) ''aiSummarize:u1''
          \<lparr>windowMs = 60000, maxRequests = 3\<rparr> Map.empty) =
       [Inr (), Inr (), Inr (), Inl ResourceExhausted, Inl ResourceExhausted]
   \<and> liveWindow [''aiSummarize:u1'' \<mapsto> \<lparr>count = 1, expiresAt = 60000\<rparr>] ''aiSummarize:u1'' 10 =
       Some \<lparr>count = 1, expiresAt = 60000\<rparr>
   \<and> count \<lparr>count = 1, expiresAt = 60000\<rparr> < maxRequests \<lparr>windowMs = 60000, maxRequests = 3\<rparr>
   \<and> assertRateLimit 10 ''aiSummarize:u1'' \<lparr>windowMs = 60000, maxRequests = 3\<rparr>
         [''aiSummarize:u1'' \<mapsto> \<lparr>count = 1, expiresAt = 60000\<rparr>] =
       (Inr (), [''aiSummarize:u1'' \<mapsto> \<lparr>count = 2, expiresAt = 60000\<rparr>])
   \<and> assertRateLimit 0 ''aiSummarize:u1'' \<lparr>windowMs = 60000, maxRequests = 3\<rparr> Map.empty =
       (Inr (), [''aiSummarize:u1'' \<mapsto> \<lparr>count = 1, expiresAt = 60000\<rparr>])"
proof -
  let ?k = "''aiSummarize:u1''"
  let ?o = "\<lparr>windowMs = 60000, maxRequests = 3\<rparr>"
  let ?b = "\<lparr>count = 1, expiresAt = 60000\<rparr>"
  have h1: "liveWindow Map.empty ?k 0 = None"
    by (simp add: liveWindow_def)
  have h2: "\<forall>t \<in> set [10, 20, 30, 59999 :: int]. t < 0 + windowMs ?o"
    by simp
  have h3: "liveWindow [?k \<mapsto> ?b] ?k 10 = Some ?b"
    by (simp add: liveWindow_def)
  have h4: "count ?b < maxRequests ?o"
    by simp
  note w0 = assertRateLimit_window [of 0 ?k ?o Map.empty "[10, 20, 30, 59999]"]
  note w1 = assertRateLimit_window [of 10 ?k ?o "[?k \<mapsto> ?b]" "[]"]
  have "fst (assertRateLimitAll (0 # [10, 20, 30, 59999]) ?k ?o Map.empty) =
      map (\<lambda>i. if int i < max 1 (maxRequests ?o) then Inr () else Inl ResourceExhausted)
        [0..<Suc (length [10, 20, 30, 59999 :: int])]"
    by (rule w0 [THEN conjunct2, THEN conjunct2, THEN conjunct2, rule_format, OF conjI [OF h1 h2]])
  then have c1: "fst (assertRateLimitAll (0 # [10, 20, 30, 59999]) ?k ?o Map.empty) =
      [Inr (), Inr (), Inr (), Inl ResourceExhausted, Inl ResourceExhausted]"
    by (simp del: assertRateLimitAll.simps)
  have "assertRateLimit 10 ?k ?o [?k \<mapsto> ?b] =
      (Inr (), [?k \<mapsto> ?b](?k \<mapsto> ?b\<lparr>count := count ?b + 1\<rparr>))"
    by (rule w1 [THEN conjunct2, THEN conjunct2, THEN conjunct1, rule_format, OF conjI [OF h3 h4]])
  then have c2: "assertRateLimit 10 ?k ?o [?k \<mapsto> ?b] =
      (Inr (), [?k \<mapsto> \<lparr>count = 2, expiresAt = 60000\<rparr>])"
    by simp
  have c3: "assertRateLimit 0 ?k ?o Map.empty =
      (Inr (), [?k \<mapsto> \<lparr>count = 1, expiresAt = 0 + windowMs ?o\<rparr>])"
    by (rule w0 [THEN conjunct2, THEN conjunct1, rule_format, OF h1])
  have c3': "assertRateLimit 0 ?k ?o Map.empty = (Inr (), [?k \<mapsto> ?b])"
    using c3 by simp
  have h2': "list_all (\<lambda>t. t < 0 + windowMs ?o) [10, 20, 30, 59999]"
    by simp
  show ?thesis
    by (intro conjI) (rule h1 h2' c1 h3 h4 c2 c3')+
qed

text \<open>
  The claim as first stated ("exactly \<open>maxRequests\<close> calls succeed") fails for a limit
  below 1: with \<open>maxRequests = 0\<close> the call that opens the window still succeeds.
\<close>

theorem assertRateLimit_zero_limit_counterexample:
  "fst (assertRateLimitAll [0, 1, 2] ''presence:u1'' \<lparr>windowMs = 1000, maxRequests = 0\<rparr> Map.empty) =
     [Inr (), Inl ResourceExhausted, Inl ResourceExhausted]
   \<and> int (count_list
        (fst (assertRateLimitAll [0, 1, 2] ''presence:u1'' \<lparr>windowMs = 1000, maxRequests = 0\<rparr> Map.empty))
        (Inr ())) \<noteq> maxRequests \<lparr>windowMs = 1000, maxRequests = 0\<rparr>"
  by (simp add: assertRateLimit_def)

text \<open>
  Claim C9. When \<open>assertRateLimit\<close> rejects a call with resource-exhausted, the limiter's
  state is returned unchanged: neither the counter nor the expiry of any key is modified.
\<close>

theorem assertRateLimit_rejected_unchanged:
  "fst (assertRateLimit now key options bs) = Inl ResourceExhausted \<Longrightarrow>
   snd (assertRateLimit now key options bs) = bs"
  by (auto simp: assertRateLimit_def split: option.splits if_splits)

theorem assertRateLimit_rejected_unchanged_witness:
  "fst (assertRateLimit 500 ''aiDraft:u7'' \<lparr>windowMs = 60000, maxRequests = 5\<rparr>
         [''aiDraft:u7'' \<mapsto> \<lparr>count = 5, expiresAt = 60100\<rparr>]) = Inl ResourceExhausted
   \<and> snd (assertRateLimit 500 ''aiDraft:u7'' \<lparr>windowMs = 60000, maxRequests = 5\<rparr>
         [''aiDraft:u7'' \<mapsto> \<lparr>count = 5, expiresAt = 60100\<rparr>]) =
       [''aiDraft:u7'' \<mapsto> \<lparr>count = 5, expiresAt = 60100\<rparr>]"
proof -
  have h: "fst (assertRateLimit 500 ''aiDraft:u7'' \<lparr>windowMs = 60000, maxRequests = 5\<rparr>
         [''aiDraft:u7'' \<mapsto> \<lparr>count = 5, expiresAt = 60100\<rparr>]) = Inl ResourceExhausted"
    by (simp add: assertRateLimit_def)
  from h assertRateLimit_rejected_unchanged [OF h] show ?thesis by simp
qed

section \<open>Properties of the chat identity\<close>

text \<open>
  Claim C8. For all user ids \<open>a\<close> and \<open>b\<close>, \<open>dmChatId a b\<close> equals \<open>dmChatId b a\<close>, and
  both are the two ids in sorted order (the smaller one first) joined by two underscores.
\<close>

theorem dmChatId_order_independent:
  "dmChatId a b = dmChatId b a \<and> dmChatId a b = min a b @ underscores @ max a b"
  by (cases "a \<le> b"; cases "b \<le> a") (auto simp: dmChatId_def min_def max_def)

section \<open>Properties of the merge engine\<close>

subsection \<open>Deduplication by key\<close>

lemma dedupeById_dedupeBy: "dedupeById ms = dedupeBy messageId ms"
  by (simp add: dedupeById_def dedupeBy_def keyedTable_def)

lemma dedupeBy_table: "dedupeBy kf ms = map snd (keyedTable kf ms)"
  by (simp add: dedupeBy_def)

lemma keyedTable_snoc:
  "keyedTable kf (ms @ [m]) = AList.update (kf m) m (keyedTable kf ms)"
  by (simp add: keyedTable_def)

lemma keyedTable_Nil: "keyedTable kf [] = []"
  by (simp add: keyedTable_def)

lemma set_update_subset: "set (AList.update k v al) \<subseteq> insert (k, v) (set al)"
  by (induction al) auto

lemma keyedTable_distinct: "distinct (map fst (keyedTable kf ms))"
  by (induction ms rule: rev_induct) (simp_all add: keyedTable_Nil keyedTable_snoc distinct_update)

lemma keyedTable_keyed: "(k, v) \<in> set (keyedTable kf ms) \<Longrightarrow> kf v = k \<and> v \<in> set ms"
proof (induction ms arbitrary: k v rule: rev_induct)
  case Nil
  then show ?case by (simp add: keyedTable_Nil)
next
  case (snoc m ms)
  from snoc.prems have "(k, v) = (kf m, m) \<or> (k, v) \<in> set (keyedTable kf ms)"
    using set_update_subset [of "kf m" m "keyedTable kf ms"]
    by (auto simp: keyedTable_snoc)
  with snoc.IH show ?case by auto
qed

lemma keyedTable_keys: "fst ` set (keyedTable kf ms) = kf ` set ms"
  by (induction ms rule: rev_induct) (auto simp: keyedTable_Nil keyedTable_snoc dom_update)

lemma keyedTable_map_of:
  "map_of (keyedTable kf ms) = map_of (rev (map (\<lambda>m. (kf m, m)) ms))"
  by (induction ms rule: rev_induct) (auto simp: keyedTable_Nil keyedTable_snoc update_conv')

lemma map_key_dedupeBy: "map kf (dedupeBy kf ms) = map fst (keyedTable kf ms)"
  using keyedTable_keyed [of _ _ kf ms] by (auto simp: dedupeBy_table)

lemma distinct_dedupeBy: "distinct (map kf (dedupeBy kf ms))"
  by (simp add: map_key_dedupeBy keyedTable_distinct)

lemma ids_dedupeBy: "kf ` set (dedupeBy kf ms) = kf ` set ms"
proof -
  have "kf ` set (dedupeBy kf ms) = set (map kf (dedupeBy kf ms))" by simp
  also have "\<dots> = fst ` set (keyedTable kf ms)" by (simp add: map_key_dedupeBy)
  finally show ?thesis by (simp add: keyedTable_keys)
qed

lemma set_dedupeBy_subset: "set (dedupeBy kf ms) \<subseteq> set ms"
  using keyedTable_keyed [of _ _ kf ms] by (auto simp: dedupeBy_table)

lemma in_dedupeBy_iff:
  "m \<in> set (dedupeBy kf ms) \<longleftrightarrow> map_of (keyedTable kf ms) (kf m) = Some m"
proof
  assume "m \<in> set (dedupeBy kf ms)"
  then obtain k where km: "(k, m) \<in> set (keyedTable kf ms)"
    by (auto simp: dedupeBy_table)
  then have "k = kf m" using keyedTable_keyed [of k m kf ms] by simp
  with km show "map_of (keyedTable kf ms) (kf m) = Some m"
    by (simp add: keyedTable_distinct)
next
  assume "map_of (keyedTable kf ms) (kf m) = Some m"
  then have "(kf m, m) \<in> set (keyedTable kf ms)" by (rule map_of_SomeD)
  then show "m \<in> set (dedupeBy kf ms)" by (force simp: dedupeBy_table)
qed

lemma dedupeBy_last_wins:
  assumes "x \<in> set zs" and "\<forall>y \<in> set zs. kf y = kf x \<longrightarrow> y = x"
  shows "x \<in> set (dedupeBy kf (ys @ zs))"
proof -
  let ?p = "\<lambda>m. (kf m, m)"
  from assms(1) have "kf x \<in> fst ` set (rev (map ?p zs))" by force
  then obtain v where v: "map_of (rev (map ?p zs)) (kf x) = Some v"
    by (metis domD dom_map_of_conv_image_fst)
  then have "(kf x, v) \<in> set (rev (map ?p zs))" by (rule map_of_SomeD)
  then have "v \<in> set zs" "kf v = kf x" by auto
  with assms(2) have "v = x" by blast
  with v have "map_of (rev (map ?p (ys @ zs))) (kf x) = Some x"
    by (simp add: map_add_def)
  then show ?thesis by (simp add: in_dedupeBy_iff keyedTable_map_of)
qed

lemma update_new_key: "k \<notin> fst ` set al \<Longrightarrow> AList.update k v al = al @ [(k, v)]"
  by (induction al) auto

lemma dedupeBy_distinct_id: "distinct (map kf ms) \<Longrightarrow> dedupeBy kf ms = ms"
proof (induction ms rule: rev_induct)
  case Nil
  then show ?case by (simp add: dedupeBy_table keyedTable_Nil)
next
  case (snoc m ms)
  then have "kf m \<notin> fst ` set (keyedTable kf ms)" by (simp add: keyedTable_keys)
  then have "AList.update (kf m) m (keyedTable kf ms) = keyedTable kf ms @ [(kf m, m)]"
    by (rule update_new_key)
  with snoc show ?case by (simp add: dedupeBy_table keyedTable_snoc)
qed



subsection \<open>Sorting\<close>

lemma distinct_map_insort_key:
  "distinct (map f (insort_key g x xs)) \<longleftrightarrow> f x \<notin> f ` set xs \<and> distinct (map f xs)"
  by (induction xs) (auto simp: set_insort_key)

lemma distinct_map_sort_key: "distinct (map f (sort_key g xs)) \<longleftrightarrow> distinct (map f xs)"
  by (induction xs) (simp_all add: distinct_map_insort_key)

lemma length_filter_insort_key:
  "length (filter P (insort_key g x xs)) = length (filter P (x # xs))"
  by (induction xs) simp_all

lemma length_filter_sort_key: "length (filter P (sort_key g xs)) = length (filter P xs)"
  by (induction xs) (simp_all add: length_filter_insort_key)


lemma set_normalizeMessages: "set (normalizeMessages ms) = set ms"
  by (simp add: normalizeMessages_def)

lemma messageId_textMessage [simp]: "messageId (textMessage mid sender body created) = mid"
  by (simp add: textMessage_def)

lemma createdMillis_textMessage [simp]:
  "createdMillis (textMessage mid sender body created) = toMillis created"
  by (simp add: textMessage_def createdMillis_def)

subsection \<open>An emission without documents\<close>

text \<open>
  Claim C6. An emission with zero documents sets \<open>hasMore\<close> to false, whatever the page
  size, and the visible list is then exactly the values of the pending side table.
\<close>

theorem onSnapshot_empty:
  "hasMore (onSnapshot pageSize [] st) = False
   \<and> messages (onSnapshot pageSize [] st) = map snd (optimisticRef st)"
  by (simp add: onSnapshot_def)

subsection \<open>Patching a pending message\<close>



subsection \<open>The subscription merge\<close>

lemma messageId_toMessageRecord [simp]: "messageId (toMessageRecord d) = docId d"
  by (simp add: toMessageRecord_def)

lemma set_mergeSnapshot:
  "set (mergeSnapshot docs optimistic prev) =
     set (dedupeBy messageId
       (filter (\<lambda>m. \<not> isOptimistic (messageId m)) prev @
        normalizeMessages (map toMessageRecord docs @ map snd optimistic)))"
  by (simp add: mergeSnapshot_def Let_def set_normalizeMessages dedupeById_dedupeBy isOptimistic_def)

lemma mergeSnapshot_distinct: "distinct (map messageId (mergeSnapshot docs optimistic prev))"
  by (simp add: mergeSnapshot_def Let_def normalizeMessages_def distinct_map_sort_key
      dedupeById_dedupeBy distinct_dedupeBy)

lemma mergeSnapshot_ids:
  "messageId ` set (mergeSnapshot docs optimistic prev) =
     messageId ` {m \<in> set prev. \<not> isOptimistic (messageId m)} \<union> docId ` set docs \<union>
     messageId ` snd ` set optimistic"
proof -
  have "messageId ` toMessageRecord ` set docs = docId ` set docs"
    by (simp add: image_image)
  then show ?thesis
    by (simp add: set_mergeSnapshot ids_dedupeBy set_normalizeMessages image_Un Un_assoc)
qed

lemma mergeSnapshot_subset:
  "set (mergeSnapshot docs optimistic prev) \<subseteq>
     {m \<in> set prev. \<not> isOptimistic (messageId m)} \<union> toMessageRecord ` set docs \<union> snd ` set optimistic"
  using set_dedupeBy_subset [of messageId
      "filter (\<lambda>m. \<not> isOptimistic (messageId m)) prev @
       normalizeMessages (map toMessageRecord docs @ map snd optimistic)"]
  by (simp add: set_mergeSnapshot set_normalizeMessages Un_assoc)

lemma mergeSnapshot_live_wins:
  assumes dist: "distinct (map docId docs)"
    and d: "d \<in> set docs"
    and fresh: "docId d \<notin> messageId ` snd ` set optimistic"
  shows "toMessageRecord d \<in> set (mergeSnapshot docs optimistic prev)"
proof -
  let ?merged = "normalizeMessages (map toMessageRecord docs @ map snd optimistic)"
  have mem: "toMessageRecord d \<in> set ?merged"
    using d by (simp add: set_normalizeMessages)
  have only: "\<forall>y \<in> set ?merged. messageId y = messageId (toMessageRecord d) \<longrightarrow> y = toMessageRecord d"
  proof (intro ballI impI)
    fix y assume y: "y \<in> set ?merged" and eq: "messageId y = messageId (toMessageRecord d)"
    from y have "y \<in> toMessageRecord ` set docs \<or> y \<in> snd ` set optimistic"
      by (auto simp: set_normalizeMessages)
    then show "y = toMessageRecord d"
    proof
      assume "y \<in> toMessageRecord ` set docs"
      then obtain d' where d': "d' \<in> set docs" "y = toMessageRecord d'" by blast
      with eq have "docId d' = docId d" by simp
      with dist d d' have "d' = d" by (meson distinct_map inj_onD)
      with d' show ?thesis by simp
    next
      assume "y \<in> snd ` set optimistic"
      then have "messageId y \<in> messageId ` snd ` set optimistic" by blast
      with eq fresh show ?thesis by simp
    qed
  qed
  show ?thesis
    unfolding set_mergeSnapshot by (rule dedupeBy_last_wins [OF mem only])
qed

text \<open>
  Claim C2, as amended. On an emission with a non-empty document list the new visible
  sequence holds every message id once; its ids are those of the previous non-optimistic
  entries, of the emitted documents and of the pending optimistic entries, and each of
  its entries comes from one of these three sources. Previous non-optimistic entries are
  kept, also when they are absent from the emitted window. When the emitted documents have
  distinct ids, a live entry whose id no pending optimistic entry shares is in the result:
  it wins over a previous entry with the same id.
\<close>

theorem onSnapshot_merge:
  assumes "docs \<noteq> []" and "visible = messages (onSnapshot pageSize docs st)"
  shows "distinct (map messageId visible)
    \<and> messageId ` set visible =
        messageId ` {m \<in> set (messages st). \<not> isOptimistic (messageId m)} \<union> docId ` set docs \<union>
        messageId ` snd ` set (optimisticRef st)
    \<and> set visible \<subseteq>
        {m \<in> set (messages st). \<not> isOptimistic (messageId m)} \<union> toMessageRecord ` set docs \<union>
        snd ` set (optimisticRef st)
    \<and> (distinct (map docId docs) \<longrightarrow>
        (\<forall>d \<in> set docs. docId d \<notin> messageId ` snd ` set (optimisticRef st) \<longrightarrow>
           toMessageRecord d \<in> set visible))"
proof -
  from assms have v: "visible = mergeSnapshot docs (optimisticRef st) (messages st)"
    by (simp add: onSnapshot_def)
  show ?thesis
    unfolding v
    by (intro conjI impI ballI mergeSnapshot_distinct mergeSnapshot_ids mergeSnapshot_subset
        mergeSnapshot_live_wins)
qed

lemma exampleState_reached:
  "exampleState = prependOptimistic pendingHello (onSnapshot 1 [hiDoc] initialState)"
  by (simp add: exampleState_def prependOptimistic_def onSnapshot_def initialState_def
      mergeSnapshot_def normalizeMessages_def dedupeById_def toMessageRecord_def hiDoc_def
      persistedHi_def pendingHello_def startsWith_def createdMillis_def textMessage_def)

lemmas example_defs =
  exampleState_def twoPending_def initialState_def hiDoc_def liveDoc_def olderDoc_def
  persistedHi_def pendingHello_def pendingLater_def textMessage_def emptyPatch_def

lemmas engine_defs =
  onSnapshot_def mergeSnapshot_def loadMore_def loadMoreMerge_def prependOptimistic_def
  settleOptimistic_def settleMessages_def updateOptimistic_def applyPatch_def
  mergeWithReadBy_def orElse_def uniqueInOrder_def normalizeMessages_def dedupeById_def
  toMessageRecord_def startsWith_def isOptimistic_def createdMillis_def visibleSorted_def Let_def

lemma onSnapshot_example:
  "messages (onSnapshot 30 [liveDoc] exampleState) =
     [persistedHi, pendingHello, toMessageRecord liveDoc]"
  by (simp add: engine_defs example_defs)

theorem onSnapshot_merge_witness:
  "[liveDoc] \<noteq> []
   \<and> distinct (map docId [liveDoc])
   \<and> docId liveDoc \<notin> messageId ` snd ` set (optimisticRef exampleState)
   \<and> toMessageRecord liveDoc \<in> set (messages (onSnapshot 30 [liveDoc] exampleState))
   \<and> distinct (map messageId (messages (onSnapshot 30 [liveDoc] exampleState)))"
proof -
  let ?v = "messages (onSnapshot 30 [liveDoc] exampleState)"
  have h1: "[liveDoc] \<noteq> []" by simp
  have h2: "distinct (map docId [liveDoc])" by simp
  have h3: "docId liveDoc \<notin> messageId ` snd ` set (optimisticRef exampleState)"
    by (simp add: example_defs)
  have h4: "liveDoc \<in> set [liveDoc]" by simp
  note t = onSnapshot_merge [OF h1 refl, of 30 exampleState]
  have c1: "toMessageRecord liveDoc \<in> set ?v"
    by (rule t [THEN conjunct2, THEN conjunct2, THEN conjunct2, rule_format, OF h2 h4 h3])
  have c2: "distinct (map messageId ?v)"
    by (rule t [THEN conjunct1])
  show ?thesis
    by (intro conjI) (rule h1 h2 h3 c1 c2)+
qed

text \<open>
  The claim as first stated fails: \<open>persistedHi\<close> is a non-optimistic entry of the previous
  state, it is absent from the emitted window, and it is still visible after the merge.
\<close>

theorem onSnapshot_keeps_previous_counterexample:
  "persistedHi \<in> set (messages exampleState)
   \<and> \<not> isOptimistic (messageId persistedHi)
   \<and> messageId persistedHi \<notin> docId ` set [liveDoc]
   \<and> persistedHi \<in> set (messages (onSnapshot 30 [liveDoc] exampleState))"
  by (simp add: onSnapshot_example) (simp add: engine_defs example_defs)


subsection \<open>Order of the visible sequence\<close>













subsection \<open>Settling an optimistic message\<close>

lemma findIndex_None: "findIndex P xs = None \<longleftrightarrow> (\<forall>x \<in> set xs. \<not> P x)"
  by (induction xs) simp_all

lemma findIndex_Some: "findIndex P xs = Some i \<Longrightarrow> i < length xs \<and> P (xs ! i)"
  by (induction xs arbitrary: i) (auto split: if_splits)

lemma map_list_update_same: "i < length xs \<Longrightarrow> f v = f (xs ! i) \<Longrightarrow> map f (xs[i := v]) = map f xs"
  by (simp add: map_update list_update_same_conv)

lemma length_filter_key: "length (filter (\<lambda>x. f x = c) xs) = length (filter (\<lambda>k. k = c) (map f xs))"
  by (simp add: filter_map comp_def)

lemma messageId_mergeWithReadBy [simp]: "messageId (mergeWithReadBy existing next) = messageId next"
  by (simp add: mergeWithReadBy_def)

text \<open>
  How many visible entries carry the id of a persisted final message after
  \<open>prependOptimistic\<close> and \<open>settleOptimistic\<close>: the entries that had it before, plus one
  unless an entry had it and \<open>mergeReadBy\<close> was requested. The optimistic id is gone.
\<close>

lemma settle_after_prepend_count:
  fixes st :: messagesState and mergeReadBy :: bool and m final :: messageRecord
  assumes opt: "isOptimistic (messageId m)" and pers: "\<not> isOptimistic (messageId final)"
  defines "visible \<equiv> messages (settleOptimistic (messageId m) (Some final) mergeReadBy (prependOptimistic m st))"
  defines "before \<equiv> length (filter (\<lambda>x. messageId x = messageId final) (messages st))"
  shows "length (filter (\<lambda>x. messageId x = messageId final) visible) =
           (if 0 < before \<and> mergeReadBy then before else before + 1)"
    and "messageId m \<notin> messageId ` set visible"
proof -
  let ?oid = "messageId m" and ?fid = "messageId final"
  let ?V = "normalizeMessages (messages st @ [m])"
  let ?W = "filter (\<lambda>x. messageId x \<noteq> ?oid) ?V"
  from opt pers have ne: "?fid \<noteq> ?oid" by auto
  have "filter (\<lambda>x. messageId x = ?fid) ?W = filter (\<lambda>x. messageId x = ?fid) ?V"
    using ne by (auto intro: filter_cong)
  then have "length (filter (\<lambda>x. messageId x = ?fid) ?W) =
      length (filter (\<lambda>x. messageId x = ?fid) (messages st @ [m]))"
    by (simp add: normalizeMessages_def length_filter_sort_key)
  with ne have cntW: "length (filter (\<lambda>x. messageId x = ?fid) ?W) = before"
    by (simp add: before_def)
  have noW: "?oid \<notin> messageId ` set ?W" by auto
  have vis: "visible = (case findIndex (\<lambda>x. messageId x = ?fid) ?W of
        Some i \<Rightarrow> if mergeReadBy then normalizeMessages (?W[i := mergeWithReadBy (?W ! i) final])
                  else normalizeMessages (?W @ [final])
      | None \<Rightarrow> normalizeMessages (?W @ [final]))"
    unfolding visible_def using pers
    by (simp add: settleOptimistic_def prependOptimistic_def settleMessages_def Let_def
        isOptimistic_def)
  have app_cnt: "length (filter (\<lambda>x. messageId x = ?fid) (normalizeMessages (?W @ [final]))) = before + 1"
    using cntW by (simp add: normalizeMessages_def length_filter_sort_key)
  have app_no: "?oid \<notin> messageId ` set (normalizeMessages (?W @ [final]))"
    using ne noW by (auto simp: set_normalizeMessages)
  show "length (filter (\<lambda>x. messageId x = ?fid) visible) =
           (if 0 < before \<and> mergeReadBy then before else before + 1)"
    and "?oid \<notin> messageId ` set visible"
  proof (atomize (full), cases "findIndex (\<lambda>x. messageId x = ?fid) ?W")
    case None
    then have nW: "\<forall>x \<in> set ?W. \<not> messageId x = ?fid" by (simp only: findIndex_None)
    have "filter (\<lambda>x. messageId x = ?fid) ?W = []" by (rule filter_False [OF nW])
    with cntW have "before = 0" by simp
    with None vis app_cnt app_no
    show "length (filter (\<lambda>x. messageId x = ?fid) visible) =
           (if 0 < before \<and> mergeReadBy then before else before + 1) \<and>
          ?oid \<notin> messageId ` set visible"
      by simp
  next
    case (Some i)
    then have i: "i < length ?W" "messageId (?W ! i) = ?fid"
      using findIndex_Some [of "\<lambda>x. messageId x = ?fid" ?W i] by simp_all
    then have "?W ! i \<in> set ?W" by (meson nth_mem)
    with i(2) have "filter (\<lambda>x. messageId x = ?fid) ?W \<noteq> []"
      unfolding filter_empty_conv by blast
    with cntW have pos: "0 < before" by auto
    show "length (filter (\<lambda>x. messageId x = ?fid) visible) =
           (if 0 < before \<and> mergeReadBy then before else before + 1) \<and>
          ?oid \<notin> messageId ` set visible"
    proof (cases mergeReadBy)
      case False
      with Some vis app_cnt app_no show ?thesis by simp
    next
      case True
      let ?U = "?W[i := mergeWithReadBy (?W ! i) final]"
      have ids: "map messageId ?U = map messageId ?W"
        using i by (intro map_list_update_same) simp_all
      have "length (filter (\<lambda>x. messageId x = ?fid) (normalizeMessages ?U)) =
          length (filter (\<lambda>x. messageId x = ?fid) ?U)"
        by (simp add: normalizeMessages_def length_filter_sort_key)
      also have "\<dots> = length (filter (\<lambda>k. k = ?fid) (map messageId ?U))"
        by (rule length_filter_key)
      also have "\<dots> = length (filter (\<lambda>k. k = ?fid) (map messageId ?W))"
        by (simp only: ids)
      also have "\<dots> = length (filter (\<lambda>x. messageId x = ?fid) ?W)"
        by (rule length_filter_key [symmetric])
      also have "\<dots> = before"
        by (rule cntW)
      finally have c: "length (filter (\<lambda>x. messageId x = ?fid) (normalizeMessages ?U)) = before" .
      have "messageId ` set ?U = messageId ` set ?W"
        using ids by (metis set_map)
      with noW have n: "?oid \<notin> messageId ` set (normalizeMessages ?U)"
        by (simp add: set_normalizeMessages)
      from True Some vis c n pos show ?thesis by simp
    qed
  qed
qed


text \<open>
  Claim C1. The claim does not hold of the code when the final id is already visible and
  \<open>mergeReadBy\<close> is not requested: \<open>settleOptimistic\<close> then appends the final message
  next to the entry that is there. Both orders of the race are evaluated: the
  subscription delivering the persisted message before \<open>prependOptimistic\<close>, and between
  \<open>prependOptimistic\<close> and \<open>settleOptimistic\<close>. With \<open>mergeReadBy\<close> requested the same
  inputs give one entry.
\<close>

theorem settleOptimistic_duplicates_final:
  "map messageId (messages
     (settleOptimistic ''optimistic-a1'' (Some (toMessageRecord sentDoc)) False
       (prependOptimistic pendingHello (onSnapshot 30 [sentDoc] initialState)))) = [''m3'', ''m3'']
   \<and> map messageId (messages
     (settleOptimistic ''optimistic-a1'' (Some (toMessageRecord sentDoc)) False
       (onSnapshot 30 [sentDoc] (prependOptimistic pendingHello initialState)))) = [''m3'', ''m3'']
   \<and> map messageId (messages
     (settleOptimistic ''optimistic-a1'' (Some (toMessageRecord sentDoc)) True
       (prependOptimistic pendingHello (onSnapshot 30 [sentDoc] initialState)))) = [''m3'']"
  by (simp add: engine_defs example_defs sentDoc_def)

section \<open>Properties of the notification fan-out\<close>

lemma uniqueInOrder_acc:
  "distinct acc \<Longrightarrow>
   distinct (foldl (\<lambda>seen x. if x \<in> set seen then seen else seen @ [x]) acc xs) \<and>
   set (foldl (\<lambda>seen x. if x \<in> set seen then seen else seen @ [x]) acc xs) = set acc \<union> set xs"
  by (induction xs arbitrary: acc) auto

lemma distinct_uniqueInOrder: "distinct (uniqueInOrder xs)"
  using uniqueInOrder_acc [of "[]" xs] by (simp add: uniqueInOrder_def)

lemma set_uniqueInOrder: "set (uniqueInOrder xs) = set xs"
  using uniqueInOrder_acc [of "[]" xs] by (simp add: uniqueInOrder_def)

lemma set_notificationTargets:
  "set (notificationTargets chat message) =
     set (orEmpty (participants chat)) - {dataSenderId message} - set (orEmpty (mutedBy chat))"
  by (auto simp: notificationTargets_def)

lemma set_collectTokens:
  "set (collectTokens users targets) = (\<Union>memberId \<in> set targets. set (tokensOf (users memberId)))"
  by (simp add: collectTokens_def set_uniqueInOrder)

text \<open>
  Claim C7. For every created message of a chat that exists, the targets are exactly the
  chat's participants without the sender and without the users who muted the chat. At
  most one multicast is sent; it is sent exactly when the targets have at least one
  registration token between them, and its token list is the union of the targets'
  tokens without duplicates. Whatever the per-token responses, the operation completes:
  when some response is a failure, the failures are logged with a warning after the send.
  When the chat does not exist nothing is done.
\<close>

theorem sendMessageNotification_fanout:
  assumes "effects = sendMessageNotification chats users send chat mid message"
  shows "(chats chat = None \<longrightarrow> effects = [])
    \<and> (\<forall>chatDoc. chats chat = Some chatDoc \<longrightarrow>
          set (notificationTargets chatDoc message) =
            set (orEmpty (participants chatDoc)) - {dataSenderId message} - set (orEmpty (mutedBy chatDoc))
        \<and> length (filter isSend effects) \<le> 1
        \<and> (\<forall>payload. SendEachForMulticast payload \<in> set effects \<longrightarrow>
              distinct (tokens payload) \<and>
              set (tokens payload) =
                (\<Union>memberId \<in> set (notificationTargets chatDoc message). set (tokensOf (users memberId))) \<and>
              ((\<exists>result \<in> set (send payload). \<not> success result) \<longrightarrow>
                 effects = [SendEachForMulticast payload,
                            LoggerWarn ''Some notifications failed''
                              (map errorMessage (filter (\<lambda>result. \<not> success result) (send payload)))]))
        \<and> ((\<exists>payload. SendEachForMulticast payload \<in> set effects) \<longleftrightarrow>
              (\<Union>memberId \<in> set (notificationTargets chatDoc message). set (tokensOf (users memberId))) \<noteq> {}))"
proof (intro conjI impI allI)
  assume "chats chat = None"
  with assms show "effects = []" by (simp add: sendMessageNotification_def)
next
  fix chatDoc assume c: "chats chat = Some chatDoc"
  let ?targets = "notificationTargets chatDoc message"
  let ?tokens = "collectTokens users ?targets"
  let ?union = "\<Union>memberId \<in> set ?targets. set (tokensOf (users memberId))"
  have tok: "set ?tokens = ?union" by (rule set_collectTokens)
  show "set ?targets =
      set (orEmpty (participants chatDoc)) - {dataSenderId message} - set (orEmpty (mutedBy chatDoc))"
    by (rule set_notificationTargets)
  show "length (filter isSend effects) \<le> 1"
    using assms c by (simp add: sendMessageNotification_def Let_def)
  have empty: "?union = {} \<Longrightarrow> \<forall>e \<in> set effects. \<not> isSend e"
    using assms c tok by (auto simp: sendMessageNotification_def Let_def)
  have sent: "?union \<noteq> {} \<Longrightarrow> \<exists>payload. effects ! 0 = SendEachForMulticast payload \<and> effects \<noteq> []"
    using assms c tok by (auto simp: sendMessageNotification_def Let_def)
  show "(\<exists>payload. SendEachForMulticast payload \<in> set effects) \<longleftrightarrow> ?union \<noteq> {}"
  proof
    assume "\<exists>payload. SendEachForMulticast payload \<in> set effects"
    then obtain payload where "SendEachForMulticast payload \<in> set effects" ..
    then have "\<exists>e \<in> set effects. isSend e" by force
    with empty show "?union \<noteq> {}" by blast
  next
    assume "?union \<noteq> {}"
    from sent [OF this] obtain payload where "effects ! 0 = SendEachForMulticast payload" "effects \<noteq> []"
      by blast
    then have "SendEachForMulticast payload \<in> set effects"
      by (metis length_greater_0_conv nth_mem)
    then show "\<exists>payload. SendEachForMulticast payload \<in> set effects" ..
  qed
  fix payload assume p: "SendEachForMulticast payload \<in> set effects"
  from p assms c have pt: "tokens payload = ?tokens"
    by (auto simp: sendMessageNotification_def Let_def split: if_splits)
  show "distinct (tokens payload)"
    unfolding pt collectTokens_def by (rule distinct_uniqueInOrder)
  show "set (tokens payload) = ?union"
    unfolding pt by (rule tok)
  assume "\<exists>result \<in> set (send payload). \<not> success result"
  then have f: "filter (\<lambda>result. \<not> success result) (send payload) \<noteq> []"
    by (simp add: filter_empty_conv)
  from p assms c f show "effects = [SendEachForMulticast payload,
      LoggerWarn ''Some notifications failed''
        (map errorMessage (filter (\<lambda>result. \<not> success result) (send payload)))]"
    by (auto simp: sendMessageNotification_def Let_def split: if_splits)
qed


theorem sendMessageNotification_fanout_witness:
  "exampleChats ''chat-1'' = Some exampleChat
   \<and> set (notificationTargets exampleChat exampleMessage) = {''bob'', ''dave''}
   \<and> sendMessageNotification exampleChats exampleUsers exampleSend ''chat-1'' ''m3'' exampleMessage =
       [SendEachForMulticast examplePayload, LoggerWarn ''Some notifications failed'' [Some ''unregistered'']]
   \<and> length (filter isSend
         (sendMessageNotification exampleChats exampleUsers exampleSend ''chat-1'' ''m3'' exampleMessage)) \<le> 1
   \<and> distinct (tokens examplePayload)
   \<and> set (tokens examplePayload) = {''t1'', ''t2'', ''t3''}
   \<and> exampleChats ''nowhere'' = None
   \<and> sendMessageNotification exampleChats exampleUsers exampleSend ''nowhere'' ''m3'' exampleMessage = []"
proof -
  let ?effects = "sendMessageNotification exampleChats exampleUsers exampleSend ''chat-1'' ''m3'' exampleMessage"
  note t = sendMessageNotification_fanout [OF refl, of exampleChats "''chat-1''" exampleUsers
      exampleSend "''m3''" exampleMessage]
  note n = sendMessageNotification_fanout [OF refl, of exampleChats "''nowhere''" exampleUsers
      exampleSend "''m3''" exampleMessage]
  have h1: "exampleChats ''chat-1'' = Some exampleChat"
    by (simp add: exampleChats_def)
  note t' = t [THEN conjunct2, rule_format, OF h1]
  have targets: "set (notificationTargets exampleChat exampleMessage) =
      set (orEmpty (participants exampleChat)) - {dataSenderId exampleMessage} -
      set (orEmpty (mutedBy exampleChat))"
    by (rule t' [THEN conjunct1])
  have c1: "set (notificationTargets exampleChat exampleMessage) = {''bob'', ''dave''}"
    unfolding targets by (auto simp: exampleChat_def exampleMessage_def orEmpty_def)
  have c2: "length (filter isSend ?effects) \<le> 1"
    by (rule t' [THEN conjunct2, THEN conjunct1])
  have unionNe: "(\<Union>memberId \<in> set (notificationTargets exampleChat exampleMessage).
      set (tokensOf (exampleUsers memberId))) \<noteq> {}"
    unfolding c1 by (auto simp: exampleUsers_def tokensOf_def orEmpty_def)
  have "\<exists>payload. SendEachForMulticast payload \<in> set ?effects"
    using t' [THEN conjunct2, THEN conjunct2, THEN conjunct2] unionNe by blast
  have eval: "?effects = [SendEachForMulticast examplePayload,
      LoggerWarn ''Some notifications failed'' [Some ''unregistered'']]"
    by (simp add: sendMessageNotification_def notificationTargets_def collectTokens_def
        uniqueInOrder_def tokensOf_def orEmpty_def notificationTitleOf_def notificationBodyOf_def
        exampleChats_def exampleChat_def exampleUsers_def exampleSend_def exampleMessage_def
        examplePayload_def Let_def)
  have p': "SendEachForMulticast examplePayload \<in> set ?effects"
    by (simp add: eval)
  note sent = t' [THEN conjunct2, THEN conjunct2, THEN conjunct1, rule_format, OF p']
  have c3: "distinct (tokens examplePayload)"
    by (rule sent [THEN conjunct1])
  have "set (tokens examplePayload) = (\<Union>memberId \<in> set (notificationTargets exampleChat exampleMessage).
      set (tokensOf (exampleUsers memberId)))"
    by (rule sent [THEN conjunct2, THEN conjunct1])
  then have c4: "set (tokens examplePayload) = {''t1'', ''t2'', ''t3''}"
    unfolding c1 by (auto simp: exampleUsers_def tokensOf_def orEmpty_def)
  have h2: "exampleChats ''nowhere'' = None"
    by (simp add: exampleChats_def)
  have c5: "sendMessageNotification exampleChats exampleUsers exampleSend ''nowhere'' ''m3'' exampleMessage = []"
    by (rule n [THEN conjunct1, rule_format, OF h2])
  show ?thesis
    by (intro conjI) (rule h1 c1 eval c2 c3 c4 h2 c5)+
qed

section \<open>Properties of the timestamp normalizer\<close>










end
